theory Spec2Isabelle
  imports Complex_Main
begin

section \<open>Starfield generator: data model\<close>

text \<open>
  The development embeds \<^verbatim>\<open>src/starfield.py\<close>. Python integers are \<^typ>\<open>int\<close>.
  Python floats are modelled by \<^typ>\<open>real\<close>: the arithmetic is exact and the rounding of
  the floating-point operations is not represented. An exception is a value of
  \<^verbatim>\<open>py_error\<close>, returned as \<open>Inl\<close>.
\<close>

datatype py_error = ValueError | IndexError

text \<open>
  An RGB pixel, and an image as the list of its rows: \<^verbatim>\<open>img_array[py, px]\<close> is pixel
  \<open>px\<close> of row \<open>py\<close>. The PIL image and the numpy array made from it hold the same
  data and share this type.
\<close>

type_synonym pixel = "int \<times> int \<times> int"
type_synonym image = "pixel list list"

record generator =
  width :: int
  height :: int
  density :: real
  background :: string

text \<open>\<^verbatim>\<open>int(v)\<close> on a float: truncation toward zero.\<close>

definition py_int :: "real \<Rightarrow> int" where
  "py_int v = (if 0 \<le> v then \<lfloor>v\<rfloor> else \<lceil>v\<rceil>)"

text \<open>\<^verbatim>\<open>range(a, b)\<close> as the list of its integers.\<close>

definition py_range :: "int \<Rightarrow> int \<Rightarrow> int list" where
  "py_range a b = [a..b - 1]"

text \<open>A \<^verbatim>\<open>for\<close> loop whose body may raise: the first error ends the loop.\<close>

fun for_each :: "'a list \<Rightarrow> ('a \<Rightarrow> 's \<Rightarrow> py_error + 's) \<Rightarrow> 's \<Rightarrow> py_error + 's" where
  "for_each [] body s = Inr s"
| "for_each (a # as) body s =
     (case body a s of Inl e \<Rightarrow> Inl e | Inr s' \<Rightarrow> for_each as body s')"

subsection \<open>Array access\<close>

text \<open>
  Reading and writing \<^verbatim>\<open>img_array[py, px]\<close>. An index past the end raises IndexError;
  a negative index counts from the end, as numpy has it.
\<close>

definition norm_index :: "int \<Rightarrow> nat \<Rightarrow> py_error + nat" where
  "norm_index i n =
     (let j = (if i < 0 then int n + i else i)
      in if 0 \<le> j \<and> j < int n then Inr (nat j) else Inl IndexError)"

definition array_get :: "image \<Rightarrow> int \<Rightarrow> int \<Rightarrow> py_error + pixel" where
  "array_get a py px =
     (case norm_index py (length a) of
        Inl e \<Rightarrow> Inl e
      | Inr r \<Rightarrow>
          (case norm_index px (length (a ! r)) of
             Inl e \<Rightarrow> Inl e
           | Inr c \<Rightarrow> Inr (a ! r ! c)))"

definition array_set :: "image \<Rightarrow> int \<Rightarrow> int \<Rightarrow> pixel \<Rightarrow> py_error + image" where
  "array_set a py px v =
     (case norm_index py (length a) of
        Inl e \<Rightarrow> Inl e
      | Inr r \<Rightarrow>
          (case norm_index px (length (a ! r)) of
             Inl e \<Rightarrow> Inl e
           | Inr c \<Rightarrow> Inr (a[r := (a ! r)[c := v]])))"

section \<open>Diffraction spikes\<close>

text \<open>
  The locals of \<^verbatim>\<open>draw_diffraction_spikes\<close> (lines 67 to 69), as functions of the
  brightness.
\<close>

definition spike_intensity :: "real \<Rightarrow> real" where
  "spike_intensity brightness = (brightness - 9) / 1"

definition base_intensity :: "real \<Rightarrow> int" where
  "base_intensity brightness = py_int ((brightness / 10) * 255)"

definition spike_length :: "real \<Rightarrow> int" where
  "spike_length brightness = py_int (8 + (brightness - 9) * 12)"

text \<open>
  Lines 75 and 78 to 80 (the same as 88 and 92 to 94): inside the canvas, the pixel becomes
  grey with the value of its red channel plus \<open>spike_val\<close>, at most 255. The value stored
  is between 0 and 255 whenever the red channel read is and \<open>spike_val\<close> is not negative
  (lemma \<open>add_spike_write\<close> below), so storing it in the 8-bit array keeps it as it is.
\<close>

definition add_spike :: "generator \<Rightarrow> int \<Rightarrow> int \<Rightarrow> int \<Rightarrow> image \<Rightarrow> py_error + image" where
  "add_spike self px py spike_val img_array =
     (if 0 \<le> px \<and> px < width self \<and> 0 \<le> py \<and> py < height self then
        (case array_get img_array py px of
           Inl e \<Rightarrow> Inl e
         | Inr current \<Rightarrow>
             (let new_val = min 255 (fst current + spike_val)
              in array_set img_array py px (new_val, new_val, new_val)))
      else Inr img_array)"

text \<open>The bodies of the two inner loops (lines 72 to 80 and 85 to 94).\<close>

definition cardinal_step ::
  "generator \<Rightarrow> int \<Rightarrow> int \<Rightarrow> real \<Rightarrow> int \<times> int \<Rightarrow> int \<Rightarrow> image \<Rightarrow> py_error + image" where
  "cardinal_step self x y brightness d i img_array =
     (let px = x + fst d * i;
          py = y + snd d * i;
          fade = 1 - (real_of_int i / real_of_int (spike_length brightness));
          spike_val = py_int (real_of_int (base_intensity brightness)
                        * spike_intensity brightness * fade)
      in add_spike self px py spike_val img_array)"

definition diagonal_step ::
  "generator \<Rightarrow> int \<Rightarrow> int \<Rightarrow> real \<Rightarrow> int \<times> int \<Rightarrow> int \<Rightarrow> image \<Rightarrow> py_error + image" where
  "diagonal_step self x y brightness d i img_array =
     (let px = x + fst d * i;
          py = y + snd d * i;
          fade = 1 - (real_of_int i / real_of_int (spike_length brightness div 2));
          spike_val = py_int (real_of_int (base_intensity brightness)
                        * spike_intensity brightness * fade * 0.5)
      in add_spike self px py spike_val img_array)"

definition cardinal_dirs :: "(int \<times> int) list" where
  "cardinal_dirs = [(1, 0), (-1, 0), (0, 1), (0, -1)]"

definition diagonal_dirs :: "(int \<times> int) list" where
  "diagonal_dirs = [(1, 1), (-1, 1), (1, -1), (-1, -1)]"

definition draw_diffraction_spikes ::
  "generator \<Rightarrow> image \<Rightarrow> int \<Rightarrow> int \<Rightarrow> real \<Rightarrow> py_error + image" where
  "draw_diffraction_spikes self img_array x y brightness =
     (if brightness \<le> 9 then Inr img_array
      else
        (case for_each cardinal_dirs
                (\<lambda>d. for_each (py_range 1 (spike_length brightness))
                       (cardinal_step self x y brightness d)) img_array of
           Inl e \<Rightarrow> Inl e
         | Inr img1 \<Rightarrow>
             if brightness > 9.5 then
               for_each diagonal_dirs
                 (\<lambda>d. for_each (py_range 1 (spike_length brightness div 2))
                        (diagonal_step self x y brightness d)) img1
             else Inr img1))"

text \<open>The spike pass of \<^verbatim>\<open>generate\<close> (lines 110 to 112) over the list of stars.\<close>

type_synonym star = "int \<times> int \<times> real"

definition spike_pass :: "generator \<Rightarrow> star list \<Rightarrow> image \<Rightarrow> py_error + image" where
  "spike_pass self stars img_array =
     for_each stars
       (\<lambda>(x, y, brightness) img.
          if brightness > 8 then draw_diffraction_spikes self img x y brightness
          else Inr img)
       img_array"

section \<open>Random source\<close>

text \<open>
  Python's \<^verbatim>\<open>random\<close> module is outside the repository. Its global generator is made
  explicit as the sequence of uniform draws it will deliver: \<^verbatim>\<open>random.random()\<close>
  takes the next draw; \<^verbatim>\<open>random.randint(a, b)\<close> raises ValueError on an empty range
  and otherwise scales the next draw to an integer between \<open>a\<close> and \<open>b\<close>, both
  included. A source is valid when every draw lies in \<open>[0, 1)\<close>.
\<close>

type_synonym rng = "nat \<Rightarrow> real"

definition next_rng :: "rng \<Rightarrow> rng" where
  "next_rng g = (\<lambda>n. g (Suc n))"

definition py_random :: "rng \<Rightarrow> real \<times> rng" where
  "py_random g = (g 0, next_rng g)"

definition py_randint :: "int \<Rightarrow> int \<Rightarrow> rng \<Rightarrow> py_error + (int \<times> rng)" where
  "py_randint a b g =
     (if b < a then Inl ValueError
      else Inr (a + \<lfloor>g 0 * real_of_int (b - a + 1)\<rfloor>, next_rng g))"


section \<open>Brightness sampler\<close>

text \<open>
  \<^verbatim>\<open>generate_star_brightness\<close> (lines 36 to 46). The first draw \<open>u\<close> is taken and
  never used; the second, \<open>r\<close>, goes into the formula. \<^verbatim>\<open>**\<close> on floats with a
  positive base is \<open>powr\<close>.
\<close>

definition generate_star_brightness :: "rng \<Rightarrow> real \<times> rng" where
  "generate_star_brightness g =
     (let (u, g1) = py_random g;
          x_min = 1;
          x_max = 10;
          alpha = 5 / 2;
          (r, g2) = py_random g1;
          brightness = (x_min powr (- alpha + 1)
                         + r * (x_max powr (- alpha + 1) - x_min powr (- alpha + 1)))
                       powr (1 / (- alpha + 1))
      in (brightness, g2))"

section \<open>Glyphs\<close>

text \<open>
  The imaging library (PIL) is outside the repository. What the source needs from it is
  a parameter of the model: the pixels that a filled ellipse and an ellipse outline with
  a given bounding box \<open>(x0, y0, x1, y1)\<close> cover, and the image that opening a path,
  resizing to the requested size and converting to RGB gives (or the exception raised).
\<close>

record pil =
  ellipse_fill :: "int \<times> int \<times> int \<times> int \<Rightarrow> (int \<times> int) list"
  ellipse_outline :: "int \<times> int \<times> int \<times> int \<Rightarrow> (int \<times> int) list"
  load_image :: "string \<Rightarrow> int \<Rightarrow> int \<Rightarrow> py_error + image"

text \<open>
  Drawing clips each colour component to 0..255 and leaves out every pixel that is not
  on the image.
\<close>

definition clip8 :: "int \<Rightarrow> int" where
  "clip8 v = (if v < 0 then 0 else if 255 < v then 255 else v)"

definition ink :: "pixel \<Rightarrow> pixel" where
  "ink c = (clip8 (fst c), clip8 (fst (snd c)), clip8 (snd (snd c)))"

definition put_pixel :: "image \<Rightarrow> int \<times> int \<Rightarrow> pixel \<Rightarrow> image" where
  "put_pixel img p c =
     (let px = fst p; py = snd p
      in if 0 \<le> py \<and> py < int (length img) \<and> 0 \<le> px \<and> px < int (length (img ! nat py))
         then img[nat py := (img ! nat py)[nat px := ink c]]
         else img)"

definition draw_pixels :: "image \<Rightarrow> (int \<times> int) list \<Rightarrow> pixel \<Rightarrow> image" where
  "draw_pixels img ps c = fold (\<lambda>p im. put_pixel im p c) ps img"

text \<open>The local \<^verbatim>\<open>intensity\<close> of \<^verbatim>\<open>draw_star\<close> (line 49).\<close>

definition intensity :: "real \<Rightarrow> int" where
  "intensity brightness = py_int ((brightness / 10) * 255)"

text \<open>\<^verbatim>\<open>draw_star\<close> (lines 48 to 62); the image drawn on is returned.\<close>

definition draw_star :: "pil \<Rightarrow> image \<Rightarrow> int \<Rightarrow> int \<Rightarrow> real \<Rightarrow> image" where
  "draw_star lib img x y brightness =
     (let color = (intensity brightness, intensity brightness, intensity brightness)
      in if brightness < 3 then put_pixel img (x, y) color
         else if brightness < 6 then
           draw_pixels img (ellipse_fill lib (x - 1, y - 1, x + 1, y + 1)) color
         else
           (let radius = py_int (brightness / 5);
                img1 = draw_pixels img
                         (ellipse_fill lib (x - radius, y - radius, x + radius, y + radius))
                         color
            in if brightness > 8 then
                 (let glow_color = (intensity brightness div 2, intensity brightness div 2,
                                    intensity brightness div 2)
                  in draw_pixels img1
                       (ellipse_outline lib
                          (x - radius - 1, y - radius - 1, x + radius + 1, y + radius + 1))
                       glow_color)
               else img1))"

section \<open>Background\<close>

text \<open>
  \<^verbatim>\<open>int(s, 16)\<close> on the two-character slices of the colour. A slice of hexadecimal
  digits gives its value, and a malformed one the ValueError of \<^verbatim>\<open>int\<close>. Python
  reads a few more spellings as a number (a sign or a blank beside a single digit);
  strings are ASCII here and those spellings are reported as malformed.
\<close>

definition hex_digit :: "char \<Rightarrow> int option" where
  "hex_digit c =
     (let n = (of_char c :: nat)
      in if 48 \<le> n \<and> n \<le> 57 then Some (int n - 48)
         else if 97 \<le> n \<and> n \<le> 102 then Some (int n - 87)
         else if 65 \<le> n \<and> n \<le> 70 then Some (int n - 55)
         else None)"

definition int_base16 :: "string \<Rightarrow> py_error + int" where
  "int_base16 s =
     (if s \<noteq> [] \<and> list_all (\<lambda>c. hex_digit c \<noteq> None) s
      then Inr (foldl (\<lambda>a c. 16 * a + the (hex_digit c)) 0 s)
      else Inl ValueError)"

text \<open>\<^verbatim>\<open>Image.new('RGB', (w, h), c)\<close>: a negative size is refused.\<close>

definition image_new :: "int \<Rightarrow> int \<Rightarrow> pixel \<Rightarrow> py_error + image" where
  "image_new w h c =
     (if w < 0 \<or> h < 0 then Inl ValueError
      else Inr (replicate (nat h) (replicate (nat w) (ink c))))"

definition startswith :: "string \<Rightarrow> char \<Rightarrow> bool" where
  "startswith s c = (case s of [] \<Rightarrow> False | a # _ \<Rightarrow> a = c)"

definition lstrip :: "string \<Rightarrow> char \<Rightarrow> string" where
  "lstrip s c = dropWhile (\<lambda>a. a = c) s"

text \<open>
  \<^verbatim>\<open>parse_background\<close> (lines 16 to 34). In the second branch every exception of the
  library becomes a ValueError.
\<close>

definition parse_background :: "pil \<Rightarrow> generator \<Rightarrow> py_error + image" where
  "parse_background lib self =
     (if startswith (background self) CHR ''#'' then
        (let hex_color = lstrip (background self) CHR ''#''
         in if length hex_color = 6 then
              (case int_base16 (take 2 (drop 0 hex_color)) of
                 Inl e \<Rightarrow> Inl e
               | Inr r \<Rightarrow>
                   (case int_base16 (take 2 (drop 2 hex_color)) of
                      Inl e \<Rightarrow> Inl e
                    | Inr g \<Rightarrow>
                        (case int_base16 (take 2 (drop 4 hex_color)) of
                           Inl e \<Rightarrow> Inl e
                         | Inr b \<Rightarrow> image_new (width self) (height self) (r, g, b))))
            else Inl ValueError)
      else
        (case load_image lib (background self) (width self) (height self) of
           Inl e \<Rightarrow> Inl ValueError
         | Inr img \<Rightarrow> Inr img))"

section \<open>Generation\<close>

text \<open>
  The body of the sampling loop (lines 103 to 106) on the pair of the list built so far
  and the random source, the loop itself (line 102), the glyph pass (lines 107 and 108)
  and \<^verbatim>\<open>generate\<close> (lines 96 to 115).
\<close>

definition sample_star :: "generator \<Rightarrow> star list \<times> rng \<Rightarrow> py_error + (star list \<times> rng)" where
  "sample_star self st =
     (case py_randint 0 (width self - 1) (snd st) of
        Inl e \<Rightarrow> Inl e
      | Inr (x, g1) \<Rightarrow>
          (case py_randint 0 (height self - 1) g1 of
             Inl e \<Rightarrow> Inl e
           | Inr (y, g2) \<Rightarrow>
               (let (brightness, g3) = generate_star_brightness g2
                in Inr (fst st @ [(x, y, brightness)], g3))))"

definition sample_stars :: "generator \<Rightarrow> int \<Rightarrow> rng \<Rightarrow> py_error + (star list \<times> rng)" where
  "sample_stars self num_stars g =
     for_each (py_range 0 num_stars) (\<lambda>_. sample_star self) ([], g)"

definition glyph_pass :: "pil \<Rightarrow> star list \<Rightarrow> image \<Rightarrow> image" where
  "glyph_pass lib stars img =
     fold (\<lambda>(x, y, brightness) im. draw_star lib im x y brightness) stars img"

definition generate :: "pil \<Rightarrow> generator \<Rightarrow> rng \<Rightarrow> py_error + image" where
  "generate lib self g =
     (case parse_background lib self of
        Inl e \<Rightarrow> Inl e
      | Inr img \<Rightarrow>
          (let total_pixels = width self * height self;
               num_stars = py_int (real_of_int total_pixels * density self)
           in case sample_stars self num_stars g of
                Inl e \<Rightarrow> Inl e
              | Inr (stars, g') \<Rightarrow> spike_pass self stars (glyph_pass lib stars img)))"

section \<open>Vocabulary of the properties\<close>

text \<open>
  An image has the shape of the generator when it has \<open>height\<close> rows of \<open>width\<close>
  pixels; \<open>pixel_at img px py\<close> reads a pixel of such an image; a pixel is valid when
  its channels are 8-bit values.
\<close>

definition has_shape :: "generator \<Rightarrow> image \<Rightarrow> bool" where
  "has_shape self img \<longleftrightarrow>
     int (length img) = height self \<and> list_all (\<lambda>row. int (length row) = width self) img"

definition in_canvas :: "generator \<Rightarrow> int \<Rightarrow> int \<Rightarrow> bool" where
  "in_canvas self px py \<longleftrightarrow> 0 \<le> px \<and> px < width self \<and> 0 \<le> py \<and> py < height self"

definition pixel_at :: "image \<Rightarrow> int \<Rightarrow> int \<Rightarrow> pixel" where
  "pixel_at img px py = img ! nat py ! nat px"

definition grey :: "int \<Rightarrow> pixel" where
  "grey v = (v, v, v)"

definition valid_pixel :: "pixel \<Rightarrow> bool" where
  "valid_pixel p \<longleftrightarrow>
     0 \<le> fst p \<and> fst p \<le> 255 \<and> 0 \<le> fst (snd p) \<and> fst (snd p) \<le> 255
       \<and> 0 \<le> snd (snd p) \<and> snd (snd p) \<le> 255"

definition valid_image :: "image \<Rightarrow> bool" where
  "valid_image img \<longleftrightarrow> list_all (list_all valid_pixel) img"

text \<open>
  The spike compositor as a list of writes, in the order of the loops: the position
  written and the value added there. The proofs go through this list.
\<close>

definition apply_writes :: "generator \<Rightarrow> ((int \<times> int) \<times> int) list \<Rightarrow> image \<Rightarrow> py_error + image" where
  "apply_writes self ws img =
     for_each ws (\<lambda>w. add_spike self (fst (fst w)) (snd (fst w)) (snd w)) img"

definition cardinal_val :: "real \<Rightarrow> int \<Rightarrow> int" where
  "cardinal_val brightness i =
     py_int (real_of_int (base_intensity brightness) * spike_intensity brightness
               * (1 - (real_of_int i / real_of_int (spike_length brightness))))"

definition diagonal_val :: "real \<Rightarrow> int \<Rightarrow> int" where
  "diagonal_val brightness i =
     py_int (real_of_int (base_intensity brightness) * spike_intensity brightness
               * (1 - (real_of_int i / real_of_int (spike_length brightness div 2))) * 0.5)"

definition ray_pos :: "int \<Rightarrow> int \<Rightarrow> (int \<times> int) \<times> int \<Rightarrow> int \<times> int" where
  "ray_pos x y k = (x + fst (fst k) * snd k, y + snd (fst k) * snd k)"

definition cardinal_writes :: "int \<Rightarrow> int \<Rightarrow> real \<Rightarrow> ((int \<times> int) \<times> int) list" where
  "cardinal_writes x y brightness =
     map (\<lambda>k. (ray_pos x y k, cardinal_val brightness (snd k)))
       (List.product cardinal_dirs (py_range 1 (spike_length brightness)))"

definition diagonal_writes :: "int \<Rightarrow> int \<Rightarrow> real \<Rightarrow> ((int \<times> int) \<times> int) list" where
  "diagonal_writes x y brightness =
     map (\<lambda>k. (ray_pos x y k, diagonal_val brightness (snd k)))
       (List.product diagonal_dirs (py_range 1 (spike_length brightness div 2)))"

definition spike_writes :: "int \<Rightarrow> int \<Rightarrow> real \<Rightarrow> ((int \<times> int) \<times> int) list" where
  "spike_writes x y brightness =
     cardinal_writes x y brightness
       @ (if brightness > 9.5 then diagonal_writes x y brightness else [])"

text \<open>
  The library draws an ellipse inside its bounding box, both corners included:
  \<open>draws_inside\<close> is that contract. \<open>block_raster\<close> is one library that meets it (a
  filled ellipse covers the whole box, an outline the border of the box, no file can be
  opened); the theorems are instantiated with it.
\<close>

definition in_box :: "int \<times> int \<times> int \<times> int \<Rightarrow> int \<times> int \<Rightarrow> bool" where
  "in_box box p \<longleftrightarrow>
     (case box of (x0, y0, x1, y1) \<Rightarrow> x0 \<le> fst p \<and> fst p \<le> x1 \<and> y0 \<le> snd p \<and> snd p \<le> y1)"

definition draws_inside :: "pil \<Rightarrow> bool" where
  "draws_inside lib \<longleftrightarrow>
     (\<forall>box p. (p \<in> set (ellipse_fill lib box) \<longrightarrow> in_box box p)
            \<and> (p \<in> set (ellipse_outline lib box) \<longrightarrow> in_box box p))"

definition block_raster :: pil where
  "block_raster =
     \<lparr>ellipse_fill = (\<lambda>(x0, y0, x1, y1). List.product [x0..x1] [y0..y1]),
      ellipse_outline = (\<lambda>(x0, y0, x1, y1).
         filter (\<lambda>(px, py). px = x0 \<or> px = x1 \<or> py = y0 \<or> py = y1)
           (List.product [x0..x1] [y0..y1])),
      load_image = (\<lambda>path w h. Inl ValueError)\<rparr>"


section \<open>Array access and single writes\<close>

lemma norm_index_ok: "0 \<le> i \<Longrightarrow> i < int n \<Longrightarrow> norm_index i n = Inr (nat i)"
  by (simp add: norm_index_def)

lemma norm_index_InrD: "norm_index i n = Inr r \<Longrightarrow> r < n"
  by (auto simp: norm_index_def Let_def split: if_splits)

lemma has_shape_row:
  "has_shape self img \<Longrightarrow> 0 \<le> py \<Longrightarrow> py < height self \<Longrightarrow> int (length (img ! nat py)) = width self"
  by (auto simp: has_shape_def list_all_length)

lemma array_get_ok:
  assumes "has_shape self img" "in_canvas self px py"
  shows "array_get img py px = Inr (pixel_at img px py)"
proof -
  from assms have r: "norm_index py (length img) = Inr (nat py)"
    by (intro norm_index_ok) (auto simp: has_shape_def in_canvas_def)
  from assms have c: "norm_index px (length (img ! nat py)) = Inr (nat px)"
    by (intro norm_index_ok) (auto simp: has_shape_row in_canvas_def)
  show ?thesis by (simp add: array_get_def r c pixel_at_def)
qed

lemma array_set_ok:
  assumes "has_shape self img" "in_canvas self px py"
  shows "array_set img py px v = Inr (img[nat py := (img ! nat py)[nat px := v]])"
proof -
  from assms have r: "norm_index py (length img) = Inr (nat py)"
    by (intro norm_index_ok) (auto simp: has_shape_def in_canvas_def)
  from assms have c: "norm_index px (length (img ! nat py)) = Inr (nat px)"
    by (intro norm_index_ok) (auto simp: has_shape_row in_canvas_def)
  show ?thesis by (simp add: array_set_def r c)
qed

lemma has_shape_update:
  assumes "has_shape self img" "in_canvas self px py"
  shows "has_shape self (img[nat py := (img ! nat py)[nat px := v]])"
  using assms
  by (auto simp: has_shape_def in_canvas_def list_all_length nth_list_update)

lemma pixel_at_update:
  assumes "has_shape self img" "in_canvas self px py" "in_canvas self qx qy"
  shows "pixel_at (img[nat py := (img ! nat py)[nat px := v]]) qx qy =
         (if qx = px \<and> qy = py then v else pixel_at img qx qy)"
proof -
  from assms have l: "nat py < length img" "nat px < length (img ! nat py)"
    using has_shape_row[OF assms(1), of py]
    by (auto simp: has_shape_def in_canvas_def)
  from assms have e: "nat qx = nat px \<longleftrightarrow> qx = px" "nat qy = nat py \<longleftrightarrow> qy = py"
    by (auto simp: in_canvas_def)
  show ?thesis
    using l e by (auto simp: pixel_at_def nth_list_update)
qed

lemma add_spike_write:
  assumes "has_shape self img"
  shows "\<exists>img'. add_spike self px py sv img = Inr img' \<and> has_shape self img' \<and>
           (\<forall>qx qy. in_canvas self qx qy \<longrightarrow>
              pixel_at img' qx qy =
                (if qx = px \<and> qy = py then grey (min 255 (fst (pixel_at img px py) + sv))
                 else pixel_at img qx qy))"
proof (cases "in_canvas self px py")
  case True
  then have g: "0 \<le> px \<and> px < width self \<and> 0 \<le> py \<and> py < height self"
    by (simp add: in_canvas_def)
  show ?thesis
    using g array_get_ok[OF assms True] array_set_ok[OF assms True]
      has_shape_update[OF assms True] pixel_at_update[OF assms True]
    by (simp add: add_spike_def Let_def grey_def)
next
  case False
  then have "add_spike self px py sv img = Inr img"
    by (auto simp: add_spike_def in_canvas_def)
  with assms False show ?thesis by auto
qed

section \<open>Loops\<close>

lemma for_each_append:
  "for_each (as @ bs) body s =
     (case for_each as body s of Inl e \<Rightarrow> Inl e | Inr s' \<Rightarrow> for_each bs body s')"
  by (induction as arbitrary: s) (auto split: sum.splits)

lemma for_each_map: "for_each (map f as) body s = for_each as (\<lambda>a. body (f a)) s"
  by (induction as arbitrary: s) (auto split: sum.splits)

lemma for_each_nested:
  "for_each ds (\<lambda>d. for_each js (body d)) s =
   for_each (List.product ds js) (\<lambda>(d, j). body d j) s"
  by (induction ds arbitrary: s) (auto simp: for_each_append for_each_map split: sum.splits)

lemma in_py_range: "i \<in> set (py_range a b) \<longleftrightarrow> a \<le> i \<and> i < b"
  by (auto simp: py_range_def)

lemma distinct_py_range: "distinct (py_range a b)"
  by (simp add: py_range_def)


section \<open>The spike compositor as a list of writes\<close>

lemma apply_writes_exact:
  assumes "has_shape self img" "distinct (map fst ws)"
  shows "\<exists>img'. apply_writes self ws img = Inr img' \<and> has_shape self img' \<and>
           (\<forall>qx qy. in_canvas self qx qy \<longrightarrow>
              pixel_at img' qx qy =
                (case map_of ws (qx, qy) of
                   None \<Rightarrow> pixel_at img qx qy
                 | Some sv \<Rightarrow> grey (min 255 (fst (pixel_at img qx qy) + sv))))"
  using assms
proof (induction ws arbitrary: img)
  case Nil
  then show ?case by (simp add: apply_writes_def)
next
  case (Cons w ws)
  obtain px py sv where w: "w = ((px, py), sv)" by (metis prod.exhaust)
  from add_spike_write[OF Cons.prems(1), of px py sv]
  obtain img1 where s1: "add_spike self px py sv img = Inr img1"
    and h1: "has_shape self img1"
    and p1: "\<And>qx qy. in_canvas self qx qy \<Longrightarrow>
              pixel_at img1 qx qy =
                (if qx = px \<and> qy = py then grey (min 255 (fst (pixel_at img px py) + sv))
                 else pixel_at img qx qy)"
    by blast
  from Cons.prems(2) w have d: "distinct (map fst ws)" and nin: "(px, py) \<notin> fst ` set ws"
    by auto
  from Cons.IH[OF h1 d]
  obtain img' where s2: "apply_writes self ws img1 = Inr img'"
    and h2: "has_shape self img'"
    and p2: "\<And>qx qy. in_canvas self qx qy \<Longrightarrow>
              pixel_at img' qx qy =
                (case map_of ws (qx, qy) of
                   None \<Rightarrow> pixel_at img1 qx qy
                 | Some sv \<Rightarrow> grey (min 255 (fst (pixel_at img1 qx qy) + sv)))"
    by blast
  have run: "apply_writes self (w # ws) img = Inr img'"
    using s1 s2 by (simp add: apply_writes_def w)
  have px: "pixel_at img' qx qy =
                (case map_of (w # ws) (qx, qy) of
                   None \<Rightarrow> pixel_at img qx qy
                 | Some sv \<Rightarrow> grey (min 255 (fst (pixel_at img qx qy) + sv)))"
    if q: "in_canvas self qx qy" for qx qy
  proof (cases "qx = px \<and> qy = py")
    case True
    with nin have "map_of ws (qx, qy) = None"
      by (simp add: map_of_eq_None_iff)
    with True p1[OF q] p2[OF q] show ?thesis by (simp add: w)
  next
    case False
    then have "pixel_at img1 qx qy = pixel_at img qx qy"
      using p1[OF q] by auto
    with False p2[OF q] show ?thesis by (auto simp: w split: option.split)
  qed
  from run h2 px show ?case by blast
qed

lemma apply_writes_append:
  "apply_writes self (ws @ vs) img =
     (case apply_writes self ws img of Inl e \<Rightarrow> Inl e | Inr img1 \<Rightarrow> apply_writes self vs img1)"
  by (simp add: apply_writes_def for_each_append split: sum.splits)

lemma apply_writes_Nil: "apply_writes self [] img = Inr img"
  by (simp add: apply_writes_def)

lemma cardinal_loop:
  "for_each cardinal_dirs
      (\<lambda>d. for_each (py_range 1 (spike_length b)) (cardinal_step self x y b d)) img =
   apply_writes self (cardinal_writes x y b) img"
proof -
  have "(\<lambda>(d, j). cardinal_step self x y b d j) =
        (\<lambda>k. add_spike self (fst (ray_pos x y k)) (snd (ray_pos x y k))
               (cardinal_val b (snd k)))"
    by (auto simp: fun_eq_iff cardinal_step_def cardinal_val_def ray_pos_def Let_def)
  then show ?thesis
    by (simp add: for_each_nested apply_writes_def cardinal_writes_def for_each_map)
qed

lemma diagonal_loop:
  "for_each diagonal_dirs
      (\<lambda>d. for_each (py_range 1 (spike_length b div 2)) (diagonal_step self x y b d)) img =
   apply_writes self (diagonal_writes x y b) img"
proof -
  have "(\<lambda>(d, j). diagonal_step self x y b d j) =
        (\<lambda>k. add_spike self (fst (ray_pos x y k)) (snd (ray_pos x y k))
               (diagonal_val b (snd k)))"
    by (auto simp: fun_eq_iff diagonal_step_def diagonal_val_def ray_pos_def Let_def)
  then show ?thesis
    by (simp add: for_each_nested apply_writes_def diagonal_writes_def for_each_map)
qed

lemma spikes_as_writes:
  "9 < b \<Longrightarrow> draw_diffraction_spikes self img x y b = apply_writes self (spike_writes x y b) img"
  by (simp add: draw_diffraction_spikes_def cardinal_loop diagonal_loop spike_writes_def
      apply_writes_append apply_writes_Nil split: sum.splits)

lemma ray_pos_inj:
  assumes "d \<in> set (cardinal_dirs @ diagonal_dirs)" "d' \<in> set (cardinal_dirs @ diagonal_dirs)"
    and "1 \<le> i" "1 \<le> i'" "ray_pos x y (d, i) = ray_pos x y (d', i')"
  shows "d = d' \<and> i = i'"
  using assms by (auto simp: cardinal_dirs_def diagonal_dirs_def ray_pos_def)

lemma distinct_cardinal_pos:
  "distinct (map (ray_pos x y) (List.product cardinal_dirs (py_range 1 n)))"
proof -
  have "distinct (List.product cardinal_dirs (py_range 1 n))"
    by (intro distinct_product distinct_py_range) (simp add: cardinal_dirs_def)
  moreover have "inj_on (ray_pos x y) (set (List.product cardinal_dirs (py_range 1 n)))"
    by (rule inj_onI) (auto simp: in_py_range dest!: ray_pos_inj[rotated 4])
  ultimately show ?thesis by (simp add: distinct_map)
qed

lemma distinct_diagonal_pos:
  "distinct (map (ray_pos x y) (List.product diagonal_dirs (py_range 1 n)))"
proof -
  have "distinct (List.product diagonal_dirs (py_range 1 n))"
    by (intro distinct_product distinct_py_range) (simp add: diagonal_dirs_def)
  moreover have "inj_on (ray_pos x y) (set (List.product diagonal_dirs (py_range 1 n)))"
    by (rule inj_onI) (auto simp: in_py_range dest!: ray_pos_inj[rotated 4])
  ultimately show ?thesis by (simp add: distinct_map)
qed

lemma distinct_spike_writes: "distinct (map fst (spike_writes x y b))"
proof -
  have disj: "ray_pos x y ` set (List.product cardinal_dirs (py_range 1 n)) \<inter>
        ray_pos x y ` set (List.product diagonal_dirs (py_range 1 m)) = {}" for n m
  proof -
    have False if "d \<in> set cardinal_dirs" "d' \<in> set diagonal_dirs" "1 \<le> i" "1 \<le> i'"
      "ray_pos x y (d, i) = ray_pos x y (d', i')" for d d' i i'
    proof -
      from ray_pos_inj[OF _ _ that(3,4,5)] that(1,2) have "d = d'" by auto
      with that(1,2) show False by (auto simp: cardinal_dirs_def diagonal_dirs_def)
    qed
    then show ?thesis by (fastforce simp: in_py_range)
  qed
  have m: "map fst (cardinal_writes x y b) =
      map (ray_pos x y) (List.product cardinal_dirs (py_range 1 (spike_length b)))"
    "map fst (diagonal_writes x y b) =
      map (ray_pos x y) (List.product diagonal_dirs (py_range 1 (spike_length b div 2)))"
    by (simp_all add: cardinal_writes_def diagonal_writes_def comp_def)
  have s: "fst ` set (cardinal_writes x y b) =
      ray_pos x y ` set (List.product cardinal_dirs (py_range 1 (spike_length b)))"
    "fst ` set (diagonal_writes x y b) =
      ray_pos x y ` set (List.product diagonal_dirs (py_range 1 (spike_length b div 2)))"
    by (simp_all add: cardinal_writes_def diagonal_writes_def image_image)
  show ?thesis
    using disj distinct_cardinal_pos distinct_diagonal_pos
    by (simp add: spike_writes_def m s)
qed

lemma spikes_exact:
  assumes "has_shape self img" "9 < b"
  shows "\<exists>img'. draw_diffraction_spikes self img x y b = Inr img' \<and> has_shape self img' \<and>
           (\<forall>qx qy. in_canvas self qx qy \<longrightarrow>
              pixel_at img' qx qy =
                (case map_of (spike_writes x y b) (qx, qy) of
                   None \<Rightarrow> pixel_at img qx qy
                 | Some sv \<Rightarrow> grey (min 255 (fst (pixel_at img qx qy) + sv))))"
  using apply_writes_exact[OF assms(1) distinct_spike_writes, of x y b]
  by (simp add: spikes_as_writes[OF assms(2)])

subsection \<open>The values added\<close>


lemma py_int_ge0: "0 \<le> v \<Longrightarrow> 0 \<le> py_int v"
  by (simp add: py_int_def)


lemma base_intensity_ge0: "0 \<le> b \<Longrightarrow> 0 \<le> base_intensity b"
  by (simp add: base_intensity_def py_int_ge0)

lemma cardinal_arg_ge0:
  assumes "9 < b" "1 \<le> i" "i < spike_length b"
  shows "0 \<le> real_of_int (base_intensity b) * spike_intensity b
               * (1 - (real_of_int i / real_of_int (spike_length b)))"
proof -
  from assms have "real_of_int i / real_of_int (spike_length b) \<le> 1" by simp
  moreover from assms have "0 \<le> real_of_int (base_intensity b)"
    using base_intensity_ge0[of b] by simp
  moreover from assms have "0 \<le> spike_intensity b" by (simp add: spike_intensity_def)
  ultimately show ?thesis by simp
qed

lemma diagonal_arg_ge0:
  assumes "9 < b" "1 \<le> i" "i < spike_length b div 2"
  shows "0 \<le> real_of_int (base_intensity b) * spike_intensity b
               * (1 - (real_of_int i / real_of_int (spike_length b div 2))) * 0.5"
proof -
  from assms have "real_of_int i / real_of_int (spike_length b div 2) \<le> 1" by simp
  moreover from assms have "0 \<le> real_of_int (base_intensity b)"
    using base_intensity_ge0[of b] by simp
  moreover from assms have "0 \<le> spike_intensity b" by (simp add: spike_intensity_def)
  ultimately show ?thesis by simp
qed



lemma cardinal_val_ge0: "9 < b \<Longrightarrow> 1 \<le> i \<Longrightarrow> i < spike_length b \<Longrightarrow> 0 \<le> cardinal_val b i"
  using cardinal_arg_ge0[of b i] by (simp add: cardinal_val_def py_int_ge0)

lemma diagonal_val_ge0:
  "9 < b \<Longrightarrow> 1 \<le> i \<Longrightarrow> i < spike_length b div 2 \<Longrightarrow> 0 \<le> diagonal_val b i"
  using diagonal_arg_ge0[of b i] by (simp add: diagonal_val_def py_int_ge0)

lemma set_cardinal_writes:
  "set (cardinal_writes x y b) =
     {((x + fst d * i, y + snd d * i), cardinal_val b i) | d i.
        d \<in> set cardinal_dirs \<and> 1 \<le> i \<and> i < spike_length b}"
  by (force simp: cardinal_writes_def ray_pos_def in_py_range image_iff)

lemma set_diagonal_writes:
  "set (diagonal_writes x y b) =
     {((x + fst d * i, y + snd d * i), diagonal_val b i) | d i.
        d \<in> set diagonal_dirs \<and> 1 \<le> i \<and> i < spike_length b div 2}"
  by (force simp: diagonal_writes_def ray_pos_def in_py_range image_iff)

lemma map_of_spike_writes:
  "map_of (spike_writes x y b) q = Some sv \<longleftrightarrow> (q, sv) \<in> set (spike_writes x y b)"
  by (rule map_of_eq_Some_iff[OF distinct_spike_writes])



lemma spike_writes_ge0:
  assumes "9 < b" "map_of (spike_writes x y b) q = Some sv"
  shows "0 \<le> sv"
  using assms unfolding map_of_spike_writes
  by (auto simp: spike_writes_def set_cardinal_writes set_diagonal_writes
      cardinal_val_ge0 diagonal_val_ge0 split: if_splits)

lemma spike_writes_all_ge0:
  assumes "9 < b"
  shows "\<forall>w \<in> set (spike_writes x y b). 0 \<le> snd w"
  using assms
  by (auto simp: spike_writes_def set_cardinal_writes set_diagonal_writes
      cardinal_val_ge0 diagonal_val_ge0 split: if_splits)


subsection \<open>Channel range\<close>

lemma list_all_update: "list_all P xs \<Longrightarrow> P x \<Longrightarrow> list_all P (xs[i := x])"
  by (induction xs arbitrary: i) (auto split: nat.splits)

lemma valid_image_nth:
  "valid_image img \<Longrightarrow> r < length img \<Longrightarrow> c < length (img ! r) \<Longrightarrow> valid_pixel (img ! r ! c)"
  by (simp add: valid_image_def list_all_length)

lemma valid_image_update:
  assumes "valid_image img" "r < length img" "valid_pixel p"
  shows "valid_image (img[r := (img ! r)[c := p]])"
proof -
  from assms(1,2) have "list_all valid_pixel (img ! r)"
    by (simp add: valid_image_def list_all_length)
  with assms(3) have "list_all valid_pixel ((img ! r)[c := p])"
    by (simp add: list_all_update)
  with assms(1) show ?thesis
    unfolding valid_image_def by (simp add: list_all_update)
qed

lemma valid_pixel_at:
  assumes "has_shape self img" "valid_image img" "in_canvas self qx qy"
  shows "valid_pixel (pixel_at img qx qy)"
proof -
  from assms(1,3) have "nat qy < length img" "nat qx < length (img ! nat qy)"
    using has_shape_row[OF assms(1), of qy]
    by (auto simp: has_shape_def in_canvas_def)
  with assms(2) show ?thesis
    unfolding pixel_at_def by (intro valid_image_nth)
qed

lemma add_spike_valid:
  assumes "valid_image img" "0 \<le> sv" "add_spike self px py sv img = Inr img'"
  shows "valid_image img'"
proof (cases "0 \<le> px \<and> px < width self \<and> 0 \<le> py \<and> py < height self")
  case False
  with assms show ?thesis by (auto simp: add_spike_def)
next
  case True
  with assms(3) obtain r c where r: "norm_index py (length img) = Inr r"
    and c: "norm_index px (length (img ! r)) = Inr c"
    and img': "img' = img[r := (img ! r)[c := (min 255 (fst (img ! r ! c) + sv),
         min 255 (fst (img ! r ! c) + sv), min 255 (fst (img ! r ! c) + sv))]]"
    by (auto simp: add_spike_def array_get_def array_set_def Let_def split: sum.splits)
  from r c have lt: "r < length img" "c < length (img ! r)"
    by (auto dest: norm_index_InrD)
  from valid_image_nth[OF assms(1) lt] assms(2)
  have "valid_pixel (min 255 (fst (img ! r ! c) + sv),
         min 255 (fst (img ! r ! c) + sv), min 255 (fst (img ! r ! c) + sv))"
    by (simp add: valid_pixel_def)
  with assms(1) lt(1) show ?thesis
    unfolding img' by (intro valid_image_update)
qed

lemma apply_writes_valid:
  assumes "valid_image img" "\<forall>w \<in> set ws. 0 \<le> snd w" "apply_writes self ws img = Inr img'"
  shows "valid_image img'"
  using assms
proof (induction ws arbitrary: img)
  case Nil
  then show ?case by (simp add: apply_writes_def)
next
  case (Cons w ws)
  from Cons.prems(3) obtain img1
    where s1: "add_spike self (fst (fst w)) (snd (fst w)) (snd w) img = Inr img1"
      and s2: "apply_writes self ws img1 = Inr img'"
    by (auto simp: apply_writes_def split: sum.splits)
  from Cons.prems(1,2) s1 have "valid_image img1"
    by (auto intro: add_spike_valid)
  with Cons.IH[OF _ _ s2] Cons.prems(2) show ?case by simp
qed

lemma spikes_valid:
  assumes "valid_image img" "draw_diffraction_spikes self img x y b = Inr img'"
  shows "valid_image img'"
proof (cases "9 < b")
  case True
  with assms(2) have "apply_writes self (spike_writes x y b) img = Inr img'"
    by (simp add: spikes_as_writes)
  with assms(1) spike_writes_all_ge0[OF True] show ?thesis
    by (rule apply_writes_valid)
next
  case False
  with assms show ?thesis by (simp add: draw_diffraction_spikes_def)
qed

lemma spikes_total:
  assumes "has_shape self img"
  shows "\<exists>img'. draw_diffraction_spikes self img x y b = Inr img' \<and> has_shape self img'"
proof (cases "9 < b")
  case True
  from spikes_exact[OF assms True] show ?thesis by blast
next
  case False
  with assms show ?thesis by (simp add: draw_diffraction_spikes_def)
qed

lemma spikes_noop: "b \<le> 9 \<Longrightarrow> draw_diffraction_spikes self img x y b = Inr img"
  by (simp add: draw_diffraction_spikes_def)

lemma spike_pass_filter:
  "spike_pass self stars img = spike_pass self (filter (\<lambda>(x, y, b). 9 < b) stars) img"
proof (induction stars arbitrary: img)
  case Nil
  show ?case by simp
next
  case (Cons s stars)
  obtain x y b where s: "s = (x, y, b)" by (cases s) auto
  show ?case
  proof (cases "9 < b")
    case True
    with Cons.IH show ?thesis
      by (simp add: spike_pass_def s split: sum.splits)
  next
    case False
    then have "draw_diffraction_spikes self img x y b = Inr img"
      by (simp add: spikes_noop)
    with False Cons.IH[of img] show ?thesis
      by (simp add: spike_pass_def s)
  qed
qed

section \<open>Properties of the spike compositor\<close>

text \<open>
  Claim C1. With a brightness of at most 9, \<^verbatim>\<open>draw_diffraction_spikes\<close> returns the
  buffer as it received it, for every buffer and position. The spike pass of
  \<^verbatim>\<open>generate\<close> calls it for the stars brighter than 8, so the pass over a list of
  stars is the pass over its stars brighter than 9: a star with a brightness in (8, 9]
  changes no pixel, and a list without a star brighter than 9 leaves the buffer as it is.
\<close>

theorem spikes_noop_up_to_9:
  "(brightness \<le> 9 \<longrightarrow> draw_diffraction_spikes self img_array x y brightness = Inr img_array)
   \<and> spike_pass self stars img_array
       = spike_pass self (filter (\<lambda>(x, y, b). 9 < b) stars) img_array
   \<and> ((\<forall>s \<in> set stars. snd (snd s) \<le> 9) \<longrightarrow> spike_pass self stars img_array = Inr img_array)"
proof -
  have "spike_pass self stars img_array = Inr img_array"
    if "\<forall>s \<in> set stars. snd (snd s) \<le> 9"
  proof -
    from that have "filter (\<lambda>(x, y, b). 9 < b) stars = []"
      by (auto simp: filter_empty_conv)
    then show ?thesis
      using spike_pass_filter[of self stars img_array] by (simp add: spike_pass_def)
  qed
  then show ?thesis
    using spike_pass_filter[of self stars img_array] by (simp add: spikes_noop)
qed

theorem spikes_noop_up_to_9_witness:
  "draw_diffraction_spikes \<lparr>width = 3, height = 1, density = 0, background = ''#000000''\<rparr>
      [[(0, 0, 0), (9, 9, 9), (0, 0, 0)]] 1 0 9 = Inr [[(0, 0, 0), (9, 9, 9), (0, 0, 0)]]
   \<and> spike_pass \<lparr>width = 3, height = 1, density = 0, background = ''#000000''\<rparr>
        [(1, 0, 9), (0, 0, 17 / 2)] [[(0, 0, 0), (9, 9, 9), (0, 0, 0)]]
       = Inr [[(0, 0, 0), (9, 9, 9), (0, 0, 0)]]"
  using spikes_noop_up_to_9 [of 9
      "\<lparr>width = 3, height = 1, density = 0, background = ''#000000''\<rparr>"
      "[[(0, 0, 0), (9, 9, 9), (0, 0, 0)]]" 1 0 "[(1, 0, 9), (0, 0, 17 / 2)]"]
  by auto





text \<open>
  Claim C6. On a buffer whose channels all lie in 0..255, whatever the position and the
  brightness, every channel of the buffer that \<^verbatim>\<open>draw_diffraction_spikes\<close> returns lies
  in 0..255; and on a buffer of the generator's shape it does return one.
\<close>

theorem spikes_keep_channels_in_range:
  assumes "valid_image img_array"
  shows "(\<forall>img'. draw_diffraction_spikes self img_array x y brightness = Inr img'
            \<longrightarrow> valid_image img')
       \<and> (has_shape self img_array
            \<longrightarrow> (\<exists>img'. draw_diffraction_spikes self img_array x y brightness = Inr img'))"
  using assms spikes_valid spikes_total by blast

theorem spikes_keep_channels_in_range_witness:
  "\<exists>img'. draw_diffraction_spikes
            \<lparr>width = 3, height = 1, density = 0, background = ''#fafafa''\<rparr>
            [[(250, 250, 250), (250, 250, 250), (250, 250, 250)]] 0 0 (46 / 5) = Inr img'
         \<and> valid_image img'"
proof -
  let ?g = "\<lparr>width = 3, height = 1, density = 0, background = ''#fafafa''\<rparr>"
  let ?img = "[[(250, 250, 250), (250, 250, 250), (250, 250, 250)]] :: image"
  have v: "valid_image ?img" by (simp add: valid_image_def valid_pixel_def)
  have sh: "has_shape ?g ?img" by (simp add: has_shape_def)
  from spikes_keep_channels_in_range[OF v, of ?g 0 0 "46 / 5"] sh show ?thesis
    by blast
qed

text \<open>
  Claim C7, amended. \<^verbatim>\<open>draw_diffraction_spikes\<close> reads the red channel only and
  writes grey. On a buffer of the generator's shape with 8-bit channels, for every
  position and brightness and every pixel of the canvas: the red channel after the call
  is at least the red channel before; the pixel is unchanged or grey; and where the pixel
  was grey before, its green and blue channels are at least what they were.
\<close>

theorem spikes_red_channel_monotone:
  assumes "has_shape self img_array" and "valid_image img_array"
  shows "\<exists>img'. draw_diffraction_spikes self img_array x y brightness = Inr img'
           \<and> (\<forall>qx qy. in_canvas self qx qy \<longrightarrow>
                fst (pixel_at img_array qx qy) \<le> fst (pixel_at img' qx qy)
                \<and> (pixel_at img' qx qy = pixel_at img_array qx qy
                     \<or> pixel_at img' qx qy = grey (fst (pixel_at img' qx qy)))
                \<and> (pixel_at img_array qx qy = grey (fst (pixel_at img_array qx qy)) \<longrightarrow>
                     fst (snd (pixel_at img_array qx qy)) \<le> fst (snd (pixel_at img' qx qy))
                     \<and> snd (snd (pixel_at img_array qx qy)) \<le> snd (snd (pixel_at img' qx qy))))"
proof (cases "9 < brightness")
  case False
  then show ?thesis by (simp add: spikes_noop)
next
  case True
  from spikes_exact[OF assms(1) True, of x y]
  obtain img' where run: "draw_diffraction_spikes self img_array x y brightness = Inr img'"
    and px: "\<And>qx qy. in_canvas self qx qy \<Longrightarrow>
              pixel_at img' qx qy =
                (case map_of (spike_writes x y brightness) (qx, qy) of
                   None \<Rightarrow> pixel_at img_array qx qy
                 | Some sv \<Rightarrow> grey (min 255 (fst (pixel_at img_array qx qy) + sv)))"
    by blast
  have "fst (pixel_at img_array qx qy) \<le> fst (pixel_at img' qx qy)
                \<and> (pixel_at img' qx qy = pixel_at img_array qx qy
                     \<or> pixel_at img' qx qy = grey (fst (pixel_at img' qx qy)))
                \<and> (pixel_at img_array qx qy = grey (fst (pixel_at img_array qx qy)) \<longrightarrow>
                     fst (snd (pixel_at img_array qx qy)) \<le> fst (snd (pixel_at img' qx qy))
                     \<and> snd (snd (pixel_at img_array qx qy)) \<le> snd (snd (pixel_at img' qx qy)))"
    if c: "in_canvas self qx qy" for qx qy
  proof (cases "map_of (spike_writes x y brightness) (qx, qy)")
    case None
    with px[OF c] show ?thesis by simp
  next
    case (Some sv)
    from spike_writes_ge0[OF True Some] have sv: "0 \<le> sv" .
    from valid_pixel_at[OF assms c] have "fst (pixel_at img_array qx qy) \<le> 255"
      by (simp add: valid_pixel_def)
    with sv px[OF c] Some show ?thesis
      by (cases "pixel_at img_array qx qy") (auto simp: grey_def)
  qed
  with run show ?thesis by blast
qed

theorem spikes_red_channel_monotone_witness:
  "\<exists>img'. draw_diffraction_spikes
            \<lparr>width = 3, height = 1, density = 0, background = ''#00ff00''\<rparr>
            [[(0, 255, 0), (0, 255, 0), (0, 255, 0)]] 0 0 (46 / 5) = Inr img'
         \<and> 0 \<le> fst (pixel_at img' 1 0)
         \<and> (pixel_at img' 1 0 = (0, 255, 0) \<or> pixel_at img' 1 0 = grey (fst (pixel_at img' 1 0)))"
proof -
  let ?g = "\<lparr>width = 3, height = 1, density = 0, background = ''#00ff00''\<rparr>"
  let ?img = "[[(0, 255, 0), (0, 255, 0), (0, 255, 0)]] :: image"
  have sh: "has_shape ?g ?img" by (simp add: has_shape_def)
  have v: "valid_image ?img" by (simp add: valid_image_def valid_pixel_def)
  have c: "in_canvas ?g 1 0" by (simp add: in_canvas_def)
  from spikes_red_channel_monotone[OF sh v, of 0 0 "46 / 5"]
  obtain img' where r: "draw_diffraction_spikes ?g ?img 0 0 (46 / 5) = Inr img'"
    and m: "\<forall>qx qy. in_canvas ?g qx qy \<longrightarrow>
                fst (pixel_at ?img qx qy) \<le> fst (pixel_at img' qx qy)
                \<and> (pixel_at img' qx qy = pixel_at ?img qx qy
                     \<or> pixel_at img' qx qy = grey (fst (pixel_at img' qx qy)))
                \<and> (pixel_at ?img qx qy = grey (fst (pixel_at ?img qx qy)) \<longrightarrow>
                     fst (snd (pixel_at ?img qx qy)) \<le> fst (snd (pixel_at img' qx qy))
                     \<and> snd (snd (pixel_at ?img qx qy)) \<le> snd (snd (pixel_at img' qx qy)))"
    by blast
  have p: "pixel_at ?img 1 0 = (0, 255, 0)" by (simp add: pixel_at_def)
  from m[rule_format, OF c] r show ?thesis
    unfolding p by auto
qed

text \<open>
  The claim as written, for each of the three channels, fails on a pixel that is not
  grey: on a green canvas the spike of a star of brightness 9.2 at \<open>(0, 0)\<close> lowers the
  green channel of pixel \<open>(1, 0)\<close> from 255 to 42.
\<close>

theorem spikes_brighten_counterexample:
  "draw_diffraction_spikes \<lparr>width = 3, height = 1, density = 0, background = ''#00ff00''\<rparr>
      [[(0, 255, 0), (0, 255, 0), (0, 255, 0)]] 0 0 (46 / 5)
     = Inr [[(0, 255, 0), (42, 42, 42), (37, 37, 37)]]
   \<and> fst (snd (pixel_at [[(0, 255, 0), (42, 42, 42), (37, 37, 37)]] 1 0))
       < fst (snd (pixel_at [[(0, 255, 0), (0, 255, 0), (0, 255, 0)]] 1 0))"
  by code_simp

section \<open>Range of the sampled brightness\<close>

lemma brightness_formula:
  "fst (generate_star_brightness g) =
     (1 powr (1 - 5 / 2) + g 1 * (10 powr (1 - 5 / 2) - 1 powr (1 - 5 / 2))) powr (1 / (1 - 5 / 2))"
  by (simp add: generate_star_brightness_def py_random_def next_rng_def Let_def)

lemma pareto_range:
  fixes r :: real
  assumes "0 \<le> r" "r < 1"
  shows "1 \<le> (1 powr (1 - 5 / 2) + r * (10 powr (1 - 5 / 2) - 1 powr (1 - 5 / 2))) powr (1 / (1 - 5 / 2))"
    and "(1 powr (1 - 5 / 2) + r * (10 powr (1 - 5 / 2) - 1 powr (1 - 5 / 2))) powr (1 / (1 - 5 / 2)) \<le> 10"
proof -
  define c :: real where "c = 10 powr (- (3 / 2))"
  define t where "t = 1 + r * (c - 1)"
  have c0: "0 < c" by (simp add: c_def)
  have c1: "c < 1" unfolding c_def by (simp add: powr_less_one)
  have tc: "c \<le> t"
  proof -
    have "t - c = (1 - r) * (1 - c)" by (simp add: t_def algebra_simps)
    moreover have "0 \<le> (1 - r) * (1 - c)" using assms c1 by simp
    ultimately show ?thesis by simp
  qed
  have t1: "t \<le> 1"
  proof -
    have "r * (c - 1) \<le> 0" using assms c1 by (simp add: mult_nonneg_nonpos)
    then show ?thesis by (simp add: t_def)
  qed
  have t0: "0 < t" using c0 tc by simp
  have e: "(1 powr (1 - 5 / 2) + r * (10 powr (1 - 5 / 2) - 1 powr (1 - 5 / 2))) powr (1 / (1 - 5 / 2))
       = t powr (- (2 / 3))"
    by (simp add: t_def c_def)
  have "1 powr (- (2 / 3)) \<le> t powr (- (2 / 3))"
    using t0 t1 by (intro powr_mono2') simp_all
  then have lo: "1 \<le> t powr (- (2 / 3))" by simp
  have "t powr (- (2 / 3)) \<le> c powr (- (2 / 3))"
    using c0 tc by (intro powr_mono2') simp_all
  also have "c powr (- (2 / 3)) = 10" by (simp add: c_def powr_powr)
  finally have hi: "t powr (- (2 / 3)) \<le> 10" .
  from lo show "1 \<le> (1 powr (1 - 5 / 2) + r * (10 powr (1 - 5 / 2) - 1 powr (1 - 5 / 2))) powr (1 / (1 - 5 / 2))"
    unfolding e .
  from hi show "(1 powr (1 - 5 / 2) + r * (10 powr (1 - 5 / 2) - 1 powr (1 - 5 / 2))) powr (1 / (1 - 5 / 2)) \<le> 10"
    unfolding e .
qed

text \<open>
  Claim C3. When the draw \<open>r\<close> that enters the formula (the second draw of the call)
  lies in \<open>[0, 1)\<close>, the brightness returned is
  \<open>(x_min^(1 - \<alpha>) + r * (x_max^(1 - \<alpha>) - x_min^(1 - \<alpha>))) ^ (1 / (1 - \<alpha>))\<close> with
  \<open>\<alpha> = 2.5\<close>, \<open>x_min = 1\<close> and \<open>x_max = 10\<close>, and it lies between 1 and 10.
\<close>

theorem brightness_inverse_cdf:
  assumes "0 \<le> g 1" and "g 1 < 1"
  shows "fst (generate_star_brightness g) =
           (1 powr (1 - 5 / 2) + g 1 * (10 powr (1 - 5 / 2) - 1 powr (1 - 5 / 2)))
             powr (1 / (1 - 5 / 2))
         \<and> 1 \<le> fst (generate_star_brightness g) \<and> fst (generate_star_brightness g) \<le> 10
         \<and> fst (py_random (snd (py_random g))) = g 1
         \<and> snd (generate_star_brightness g) = snd (py_random (snd (py_random g)))"
  using pareto_range[OF assms]
  by (simp add: brightness_formula)
    (simp add: generate_star_brightness_def py_random_def next_rng_def)

theorem brightness_inverse_cdf_witness:
  "fst (generate_star_brightness (\<lambda>n. if n = 1 then 0 else 1 / 2)) = 1
   \<and> 1 \<le> fst (generate_star_brightness (\<lambda>n. 1 / 2))
   \<and> fst (generate_star_brightness (\<lambda>n. 1 / 2)) \<le> 10"
  using brightness_inverse_cdf[of "\<lambda>n. if n = 1 then 0 else 1 / 2"]
    brightness_inverse_cdf[of "\<lambda>n. 1 / 2"]
  by simp

section \<open>Intensity\<close>



section \<open>Footprint of a glyph\<close>

lemma put_pixel_other:
  assumes "0 \<le> qx" "0 \<le> qy" "(qx, qy) \<noteq> p"
  shows "pixel_at (put_pixel img p c) qx qy = pixel_at img qx qy"
proof (cases "0 \<le> snd p \<and> snd p < int (length img) \<and> 0 \<le> fst p
      \<and> fst p < int (length (img ! nat (snd p)))")
  case False
  then show ?thesis by (auto simp: put_pixel_def Let_def)
next
  case True
  then have u: "put_pixel img p c = img[nat (snd p) := (img ! nat (snd p))[nat (fst p) := ink c]]"
    by (simp add: put_pixel_def Let_def)
  show ?thesis
  proof (cases "qy = snd p")
    case False
    with True assms have "nat qy \<noteq> nat (snd p)" by auto
    then show ?thesis by (simp add: u pixel_at_def)
  next
    case qy: True
    with assms(3) have "qx \<noteq> fst p" by (cases p) auto
    with True assms have "nat qx \<noteq> nat (fst p)" by auto
    moreover from True have "nat (snd p) < length img" by auto
    ultimately show ?thesis using qy by (simp add: u pixel_at_def)
  qed
qed

lemma draw_pixels_other:
  assumes "0 \<le> qx" "0 \<le> qy" "(qx, qy) \<notin> set ps"
  shows "pixel_at (draw_pixels img ps c) qx qy = pixel_at img qx qy"
  using assms(3)
proof (induction ps arbitrary: img)
  case Nil
  show ?case by (simp add: draw_pixels_def)
next
  case (Cons p ps)
  then have "pixel_at (draw_pixels (put_pixel img p c) ps c) qx qy
      = pixel_at (put_pixel img p c) qx qy"
    by simp
  also have "\<dots> = pixel_at img qx qy"
    using Cons.prems assms(1,2) by (intro put_pixel_other) auto
  finally show ?case by (simp add: draw_pixels_def)
qed

lemma put_pixel_same:
  assumes "has_shape self img" "in_canvas self x y"
  shows "pixel_at (put_pixel img (x, y) c) x y = ink c"
proof -
  from assms have l: "nat y < length img" "nat x < length (img ! nat y)"
    using has_shape_row[OF assms(1), of y]
    by (auto simp: has_shape_def in_canvas_def)
  with assms(2) show ?thesis
    by (auto simp: put_pixel_def pixel_at_def in_canvas_def)
qed

lemma block_raster_inside: "draws_inside block_raster"
  by (auto simp: draws_inside_def block_raster_def in_box_def)

text \<open>
  Claim C9. On a canvas of the generator's shape, for a star position on the canvas and
  a library that draws inside bounding boxes: with a brightness below 3, \<^verbatim>\<open>draw_star\<close>
  sets the pixel \<open>(x, y)\<close> and leaves every other pixel as it was; with a brightness in
  [3, 6) it leaves every pixel outside the filled ellipse of the box from
  \<open>(x - 1, y - 1)\<close> to \<open>(x + 1, y + 1)\<close> as it was, and that ellipse lies in the 3 by 3
  block around \<open>(x, y)\<close>; with a brightness of at least 6 and \<open>r\<close> the floor of
  \<open>brightness / 5\<close> it leaves every pixel outside the disc of radius \<open>r\<close> and, above 8,
  the outline one pixel larger, as it was, the disc lying in the block of radius
  \<open>r\<close> and the outline in the block of radius \<open>r + 1\<close>. The pixel \<open>(qx, qy)\<close> is any
  pixel with coordinates that are not negative.
\<close>

theorem draw_star_footprint:
  assumes "has_shape self canvas" and "in_canvas self x y" and "draws_inside lib"
    and "0 \<le> qx" and "0 \<le> qy"
  shows "(brightness < 3 \<longrightarrow>
            pixel_at (draw_star lib canvas x y brightness) x y
              = ink (intensity brightness, intensity brightness, intensity brightness)
            \<and> ((qx, qy) \<noteq> (x, y) \<longrightarrow>
                 pixel_at (draw_star lib canvas x y brightness) qx qy = pixel_at canvas qx qy))
       \<and> (3 \<le> brightness \<and> brightness < 6 \<longrightarrow>
            set (ellipse_fill lib (x - 1, y - 1, x + 1, y + 1))
              \<subseteq> {x - 1 .. x + 1} \<times> {y - 1 .. y + 1}
            \<and> ((qx, qy) \<notin> set (ellipse_fill lib (x - 1, y - 1, x + 1, y + 1)) \<longrightarrow>
                 pixel_at (draw_star lib canvas x y brightness) qx qy = pixel_at canvas qx qy))
       \<and> (6 \<le> brightness \<longrightarrow>
            (let r = \<lfloor>brightness / 5\<rfloor>;
                 disc = set (ellipse_fill lib (x - r, y - r, x + r, y + r));
                 ring = (if 8 < brightness
                         then set (ellipse_outline lib (x - r - 1, y - r - 1, x + r + 1, y + r + 1))
                         else {})
             in disc \<subseteq> {x - r .. x + r} \<times> {y - r .. y + r}
                \<and> ring \<subseteq> {x - r - 1 .. x + r + 1} \<times> {y - r - 1 .. y + r + 1}
                \<and> ((qx, qy) \<notin> disc \<union> ring \<longrightarrow>
                     pixel_at (draw_star lib canvas x y brightness) qx qy = pixel_at canvas qx qy)))"
proof -
  have fill: "set (ellipse_fill lib (x0, y0, x1, y1)) \<subseteq> {x0 .. x1} \<times> {y0 .. y1}" for x0 y0 x1 y1
    using assms(3) by (fastforce simp: draws_inside_def in_box_def)
  have outl: "set (ellipse_outline lib (x0, y0, x1, y1)) \<subseteq> {x0 .. x1} \<times> {y0 .. y1}" for x0 y0 x1 y1
    using assms(3) by (fastforce simp: draws_inside_def in_box_def)
  have t1: "pixel_at (draw_star lib canvas x y brightness) x y
              = ink (intensity brightness, intensity brightness, intensity brightness)
            \<and> ((qx, qy) \<noteq> (x, y) \<longrightarrow>
                 pixel_at (draw_star lib canvas x y brightness) qx qy = pixel_at canvas qx qy)"
    if "brightness < 3"
    using that put_pixel_same[OF assms(1,2)] put_pixel_other[OF assms(4,5)]
    by (simp add: draw_star_def Let_def)
  have t2: "pixel_at (draw_star lib canvas x y brightness) qx qy = pixel_at canvas qx qy"
    if "3 \<le> brightness" "brightness < 6"
      "(qx, qy) \<notin> set (ellipse_fill lib (x - 1, y - 1, x + 1, y + 1))"
    using that draw_pixels_other[OF assms(4,5)]
    by (simp add: draw_star_def Let_def)
  have t3: "pixel_at (draw_star lib canvas x y brightness) qx qy = pixel_at canvas qx qy"
    if b: "6 \<le> brightness"
      and q: "(qx, qy) \<notin> set (ellipse_fill lib (x - \<lfloor>brightness / 5\<rfloor>, y - \<lfloor>brightness / 5\<rfloor>,
                 x + \<lfloor>brightness / 5\<rfloor>, y + \<lfloor>brightness / 5\<rfloor>))
             \<union> (if 8 < brightness
                 then set (ellipse_outline lib (x - \<lfloor>brightness / 5\<rfloor> - 1, y - \<lfloor>brightness / 5\<rfloor> - 1,
                        x + \<lfloor>brightness / 5\<rfloor> + 1, y + \<lfloor>brightness / 5\<rfloor> + 1))
                 else {})"
  proof -
    from b have r: "py_int (brightness / 5) = \<lfloor>brightness / 5\<rfloor>"
      by (simp add: py_int_def)
    from b q show ?thesis
      by (auto simp: draw_star_def Let_def r draw_pixels_other[OF assms(4,5)])
  qed
  from t1 t2 t3 fill outl show ?thesis
    by (simp add: Let_def)
qed

theorem draw_star_footprint_witness:
  "pixel_at (draw_star block_raster (replicate 7 (replicate 7 (0, 0, 0))) 3 3 2) 3 3 = (51, 51, 51)
   \<and> pixel_at (draw_star block_raster (replicate 7 (replicate 7 (0, 0, 0))) 3 3 2) 2 3 = (0, 0, 0)
   \<and> pixel_at (draw_star block_raster (replicate 7 (replicate 7 (0, 0, 0))) 3 3 4) 1 3 = (0, 0, 0)
   \<and> pixel_at (draw_star block_raster (replicate 7 (replicate 7 (0, 0, 0))) 3 3 7) 1 3 = (0, 0, 0)
   \<and> pixel_at (draw_star block_raster (replicate 7 (replicate 7 (0, 0, 0))) 3 3 (46 / 5)) 0 3
       = (0, 0, 0)"
proof -
  let ?g = "\<lparr>width = 7, height = 7, density = 0, background = ''#000000''\<rparr>"
  let ?c = "replicate 7 (replicate 7 (0, 0, 0)) :: image"
  have sh: "has_shape ?g ?c" by (simp add: has_shape_def list_all_iff)
  have c: "in_canvas ?g 3 3" by (simp add: in_canvas_def)
  note fp = draw_star_footprint[OF sh c block_raster_inside]
  have p: "pixel_at ?c 2 3 = (0, 0, 0)" "pixel_at ?c 1 3 = (0, 0, 0)" "pixel_at ?c 0 3 = (0, 0, 0)"
    by (simp_all add: pixel_at_def)
  have i: "ink (intensity 2, intensity 2, intensity 2) = (51, 51, 51)"
    by (simp add: ink_def clip8_def intensity_def py_int_def)
  from fp[of 2 3 2] have t1: "pixel_at (draw_star block_raster ?c 3 3 2) 3 3 = (51, 51, 51)"
    "pixel_at (draw_star block_raster ?c 3 3 2) 2 3 = (0, 0, 0)"
    by (simp_all add: i p)
  from fp[of 1 3 4] have t2: "pixel_at (draw_star block_raster ?c 3 3 4) 1 3 = (0, 0, 0)"
    by (simp add: p block_raster_def)
  from fp[of 1 3 7] have t3: "pixel_at (draw_star block_raster ?c 3 3 7) 1 3 = (0, 0, 0)"
    by (simp add: p block_raster_def Let_def)
  from fp[of 0 3 "46 / 5"]
  have t4: "pixel_at (draw_star block_raster ?c 3 3 (46 / 5)) 0 3 = (0, 0, 0)"
    by (simp add: p block_raster_def Let_def)
  from t1 t2 t3 t4 show ?thesis by simp
qed

section \<open>Hash prefixes of the background\<close>

lemma lstrip_hashes:
  assumes "\<not> startswith rest CHR ''#''"
  shows "lstrip (replicate n CHR ''#'' @ rest) CHR ''#'' = rest"
proof -
  have "dropWhile (\<lambda>a. a = CHR ''#'') (replicate n CHR ''#'' @ rest)
      = dropWhile (\<lambda>a. a = CHR ''#'') rest"
    by (induction n) simp_all
  also from assms have "\<dots> = rest"
    by (cases rest) (simp_all add: startswith_def)
  finally show ?thesis by (simp add: lstrip_def)
qed

lemma startswith_hashes: "0 < n \<Longrightarrow> startswith (replicate n CHR ''#'' @ rest) CHR ''#''"
  by (cases n) (simp_all add: startswith_def)

lemma hex_digit_range: "hex_digit c = Some v \<Longrightarrow> 0 \<le> v \<and> v \<le> 15"
  by (auto simp: hex_digit_def Let_def split: if_splits)

lemma hex_digit_not_hash: "hex_digit c \<noteq> None \<Longrightarrow> c \<noteq> CHR ''#''"
  by (auto simp: hex_digit_def)

lemma int_base16_pair:
  assumes "hex_digit a = Some u" "hex_digit b = Some v"
  shows "int_base16 [a, b] = Inr (16 * u + v)"
  using assms by (simp add: int_base16_def)

lemma ink_id: "valid_pixel c \<Longrightarrow> ink c = c"
  by (cases c) (simp add: ink_def clip8_def valid_pixel_def)

lemma parse_hex_ok:
  assumes w: "0 \<le> width self" "0 \<le> height self"
    and bg: "background self = replicate n CHR ''#'' @ hex" "0 < n"
    and hex: "length hex = 6" "list_all (\<lambda>c. hex_digit c \<noteq> None) hex"
  shows "parse_background lib self =
           Inr (replicate (nat (height self)) (replicate (nat (width self))
                  (16 * the (hex_digit (hex ! 0)) + the (hex_digit (hex ! 1)),
                   16 * the (hex_digit (hex ! 2)) + the (hex_digit (hex ! 3)),
                   16 * the (hex_digit (hex ! 4)) + the (hex_digit (hex ! 5)))))"
proof -
  from hex(1) obtain c0 c1 c2 c3 c4 c5 where h: "hex = [c0, c1, c2, c3, c4, c5]"
    by (auto simp: length_Suc_conv eval_nat_numeral)
  from hex(2) h obtain v0 v1 v2 v3 v4 v5 where
    v: "hex_digit c0 = Some v0" "hex_digit c1 = Some v1" "hex_digit c2 = Some v2"
      "hex_digit c3 = Some v3" "hex_digit c4 = Some v4" "hex_digit c5 = Some v5"
    by auto
  from v(1) have "c0 \<noteq> CHR ''#''" by (intro hex_digit_not_hash) simp
  then have "\<not> startswith hex CHR ''#''" by (simp add: h startswith_def)
  then have strip: "lstrip (background self) CHR ''#'' = hex"
    by (simp add: bg(1) lstrip_hashes)
  have start: "startswith (background self) CHR ''#''"
    by (simp add: bg startswith_hashes)
  have "valid_pixel (16 * v0 + v1, 16 * v2 + v3, 16 * v4 + v5)"
    using v[THEN hex_digit_range] by (simp add: valid_pixel_def)
  then have "ink (16 * v0 + v1, 16 * v2 + v3, 16 * v4 + v5)
      = (16 * v0 + v1, 16 * v2 + v3, 16 * v4 + v5)"
    by (rule ink_id)
  then show ?thesis
    using w v
    by (simp add: parse_background_def start strip h int_base16_pair image_new_def)
qed

lemma parse_hex_bad_length:
  assumes bg: "background self = replicate n CHR ''#'' @ rest" "0 < n"
    and rest: "\<not> startswith rest CHR ''#''" "length rest \<noteq> 6"
  shows "parse_background lib self = Inl ValueError"
  using rest(2)
  by (simp add: parse_background_def bg startswith_hashes lstrip_hashes[OF rest(1)])

text \<open>
  Claim C10. For a background made of \<open>n \<ge> 1\<close> characters \<open>#\<close> followed by \<open>rest\<close>
  and a size that is not negative: when \<open>rest\<close> is six hexadecimal digits,
  \<^verbatim>\<open>parse_background\<close> returns the canvas of \<open>height\<close> rows of \<open>width\<close> pixels of
  the colour that the three pairs of digits spell; when \<open>rest\<close> does not start with
  \<open>#\<close> and its length is not 6, \<^verbatim>\<open>parse_background\<close> raises ValueError, and so does
  \<^verbatim>\<open>generate\<close>, which draws nothing.
\<close>

theorem parse_background_hashes:
  assumes "0 \<le> width self" and "0 \<le> height self"
    and "background self = replicate n CHR ''#'' @ rest" and "0 < n"
  shows "(length rest = 6 \<and> set rest \<subseteq> set ''0123456789abcdefABCDEF'' \<longrightarrow>
            parse_background lib self =
              Inr (replicate (nat (height self)) (replicate (nat (width self))
                     (16 * the (hex_digit (rest ! 0)) + the (hex_digit (rest ! 1)),
                      16 * the (hex_digit (rest ! 2)) + the (hex_digit (rest ! 3)),
                      16 * the (hex_digit (rest ! 4)) + the (hex_digit (rest ! 5))))))
       \<and> (length rest \<noteq> 6 \<and> \<not> startswith rest CHR ''#'' \<longrightarrow>
            parse_background lib self = Inl ValueError
            \<and> generate lib self g = Inl ValueError)"
proof -
  have "list_all (\<lambda>c. hex_digit c \<noteq> None) rest"
    if "set rest \<subseteq> set ''0123456789abcdefABCDEF''"
  proof -
    have "hex_digit c \<noteq> None" if "c \<in> set ''0123456789abcdefABCDEF''" for c
      using that by (auto simp: hex_digit_def)
    with \<open>set rest \<subseteq> _\<close> show ?thesis by (auto simp: list_all_iff)
  qed
  then show ?thesis
    using parse_hex_ok[OF assms] parse_hex_bad_length[OF assms(3,4)]
    by (auto simp: generate_def)
qed

theorem parse_background_hashes_witness:
  "parse_background block_raster
      \<lparr>width = 2, height = 1, density = 0, background = ''##00ff00''\<rparr>
     = Inr [[(0, 255, 0), (0, 255, 0)]]
   \<and> parse_background block_raster
       \<lparr>width = 2, height = 1, density = 0, background = ''#00ff0''\<rparr>
     = Inl ValueError
   \<and> generate block_raster
       \<lparr>width = 2, height = 1, density = 0, background = ''#00ff0''\<rparr> (\<lambda>n. 1 / 2)
     = Inl ValueError"
  using parse_background_hashes [of
      "\<lparr>width = 2, height = 1, density = 0, background = ''##00ff00''\<rparr>" 2 "''00ff00''"
      block_raster "\<lambda>n. 1 / 2"]
    parse_background_hashes [of
      "\<lparr>width = 2, height = 1, density = 0, background = ''#00ff0''\<rparr>" 1 "''00ff0''"
      block_raster "\<lambda>n. 1 / 2"]
  by (simp add: hex_digit_def startswith_def eval_nat_numeral)

section \<open>Sampling the stars\<close>








end
